theory Spec2Isabelle
  imports Main "HOL-Library.Word" "HOL-Library.Multiset"
begin

section \<open>Data model of \<^verbatim>\<open>runtime/vm/thread.h\<close>\<close>

text \<open>
  The header declares class \<^verbatim>\<open>Thread\<close>, its nested struct \<^verbatim>\<open>State\<close> and three macro lists.
  A pointer and a \<^verbatim>\<open>uword\<close>/\<^verbatim>\<open>intptr_t\<close> are words of the target's width \<open>'w\<close>; the null
  pointer is the word \<open>0\<close>. \<^verbatim>\<open>int32_t\<close> is a \<open>32 word\<close>, read with \<open>sint\<close>.
  A member whose C++ name ends in an underscore is written with a prime after it
  (\<^verbatim>\<open>vm_tag_\<close> is \<open>vm_tag_'\<close>). An accessor whose name is also the name of a field of
  \<^verbatim>\<open>State\<close>, or of a constant of HOL, carries the class name in front
  (\<^verbatim>\<open>Thread::id\<close> is \<open>Thread_id\<close>).
\<close>

text \<open>\<^verbatim>\<open>REUSABLE_HANDLE_LIST(V)\<close>: one entry per pooled handle, named after the accessor
  \<^verbatim>\<open>object##Handle()\<close> that the list generates.\<close>

datatype ReusableHandle =
    AbstractTypeHandle
  | ArrayHandle
  | ClassHandle
  | CodeHandle
  | ErrorHandle
  | ExceptionHandlersHandle
  | FieldHandle
  | FunctionHandle
  | GrowableObjectArrayHandle
  | InstanceHandle
  | LibraryHandle
  | ObjectHandle
  | PcDescriptorsHandle
  | StringHandle
  | TypeArgumentsHandle
  | TypeParameterHandle

definition REUSABLE_HANDLE_LIST :: "ReusableHandle list" where
  "REUSABLE_HANDLE_LIST =
     [AbstractTypeHandle, ArrayHandle, ClassHandle, CodeHandle, ErrorHandle,
      ExceptionHandlersHandle, FieldHandle, FunctionHandle, GrowableObjectArrayHandle,
      InstanceHandle, LibraryHandle, ObjectHandle, PcDescriptorsHandle, StringHandle,
      TypeArgumentsHandle, TypeParameterHandle]"

text \<open>\<^verbatim>\<open>CACHED_CONSTANTS_LIST(V)\<close> = \<^verbatim>\<open>CACHED_VM_OBJECTS_LIST(V)\<close> followed by
  \<^verbatim>\<open>CACHED_ADDRESSES_LIST(V)\<close>; the constructors are the member names.\<close>

datatype CachedConstant =
    object_null_'
  | bool_true_'
  | bool_false_'
  | update_store_buffer_code_'
  | fix_callers_target_code_'
  | fix_allocation_stub_code_'
  | invoke_dart_code_stub_'
  | update_store_buffer_entry_point_'
  | native_call_wrapper_entry_point_'
  | predefined_symbols_address_'

text \<open>Modelled from the spec: \<^verbatim>\<open>ThreadId\<close> is declared in \<^verbatim>\<open>vm/os_thread.h\<close>, which is not part
  of the sources at hand; the spec calls it an opaque thread id.\<close>

type_synonym ThreadId = nat

text \<open>Modelled from the spec: \<^verbatim>\<open>Mutex\<close> is declared in \<^verbatim>\<open>vm/os_thread.h\<close>, which is not part of
  the sources at hand; no operation of the header changes the lock, its state is not modelled.\<close>

datatype Mutex = Mutex

text \<open>\<^verbatim>\<open>struct State\<close>: the isolate-specific state saved and restored on isolate exit and
  re-entry. The last three fields exist in \<^verbatim>\<open>DEBUG\<close> builds only.\<close>

record (overloaded) 'w State =
  zone :: "'w word"
  top_exit_frame_info :: "'w word"
  top_resource :: "'w word"
  timeline_block :: "'w word"
  long_jump_base :: "'w word"
  top_handle_scope :: "'w word"
  no_handle_scope_depth :: "'w word"
  no_safepoint_scope_depth :: "32 word"

text \<open>
  The data members of \<^verbatim>\<open>Thread\<close>, in declaration order. The macro-generated families are
  fields indexed by the entry of their list:
  \<^item> \<open>cached_constants\<close>: \<^verbatim>\<open>CACHED_CONSTANTS_LIST(DECLARE_MEMBERS)\<close>;
  \<^item> \<open>entry_point_'\<close>: \<^verbatim>\<open>name##_entry_point_\<close> for every name of \<^verbatim>\<open>RUNTIME_ENTRY_LIST\<close> and
    \<^verbatim>\<open>LEAF_RUNTIME_ENTRY_LIST\<close> (both lists are in \<^verbatim>\<open>vm/runtime_entry_list.h\<close>, so the names
    are strings);
  \<^item> \<open>handle_'\<close>: \<^verbatim>\<open>object##_handle_\<close>, the address of the pooled handle;
  \<^item> \<open>reusable_handle_scope_active_'\<close>: \<^verbatim>\<open>reusable_##object##_handle_scope_active_\<close>
    (\<^verbatim>\<open>DEBUG\<close> builds only);
  \<^item> \<open>reusable_handles_'\<close>: the \<^verbatim>\<open>VMHandles\<close> block that holds the pooled handles, as a store
    from the address of a handle to the raw reference the handle holds.
\<close>

record (overloaded) 'w Thread =
  id_' :: ThreadId
  thread_interrupt_callback_' :: "'w word"
  thread_interrupt_data_' :: "'w word"
  isolate_' :: "'w word"
  heap_' :: "'w word"
  state_' :: "'w State"
  timeline_block_lock_' :: Mutex
  store_buffer_block_' :: "'w word"
  log_' :: "'w word"
  vm_tag_' :: "'w word"
  cached_constants :: "CachedConstant \<Rightarrow> 'w word"
  entry_point_' :: "string \<Rightarrow> 'w word"
  handle_' :: "ReusableHandle \<Rightarrow> 'w word"
  reusable_handle_scope_active_' :: "ReusableHandle \<Rightarrow> bool"
  reusable_handles_' :: "'w word \<Rightarrow> 'w word"

text \<open>A failed \<^verbatim>\<open>ASSERT\<close> aborts the process: the only error of the model.\<close>

datatype error = AssertionFailed

text \<open>Modelled from the spec: the macro \<^verbatim>\<open>ASSERT\<close> is defined in \<^verbatim>\<open>platform/assert.h\<close>, which is
  not part of the sources at hand. Spec section 7: a contract violation is detected by an internal
  consistency check that is fatal in a checked build and compiled out otherwise. \<open>DEBUG\<close> is
  the build flag.\<close>

definition ASSERT :: "bool \<Rightarrow> bool \<Rightarrow> 'a \<Rightarrow> error + 'a" where
  "ASSERT DEBUG cond k = (if DEBUG \<and> \<not> cond then Inl AssertionFailed else Inr k)"

text \<open>\<^verbatim>\<open>INT_MAX\<close> of \<^verbatim>\<open>limits.h\<close> for the 32-bit \<^verbatim>\<open>int\<close> of every target of the VM.\<close>

definition INT_MAX :: int where
  "INT_MAX = 2147483647"

section \<open>Inline member functions\<close>

definition isolate :: "'w Thread \<Rightarrow> 'w word" where
  "isolate t = isolate_' t"

definition set_top_resource :: "'w word \<Rightarrow> 'w Thread \<Rightarrow> 'w Thread" where
  "set_top_resource v t = t\<lparr>state_' := (state_' t)\<lparr>top_resource := v\<rparr>\<rparr>"

definition set_timeline_block :: "'w word \<Rightarrow> 'w Thread \<Rightarrow> 'w Thread" where
  "set_timeline_block block t = t\<lparr>state_' := (state_' t)\<lparr>timeline_block := block\<rparr>\<rparr>"

definition set_long_jump_base :: "'w word \<Rightarrow> 'w Thread \<Rightarrow> 'w Thread" where
  "set_long_jump_base v t = t\<lparr>state_' := (state_' t)\<lparr>long_jump_base := v\<rparr>\<rparr>"

definition set_zone :: "'w word \<Rightarrow> 'w Thread \<Rightarrow> 'w Thread" where
  "set_zone z t = t\<lparr>state_' := (state_' t)\<lparr>zone := z\<rparr>\<rparr>"

definition set_top_exit_frame_info :: "'w word \<Rightarrow> 'w Thread \<Rightarrow> 'w Thread" where
  "set_top_exit_frame_info v t = t\<lparr>state_' := (state_' t)\<lparr>top_exit_frame_info := v\<rparr>\<rparr>"

definition vm_tag :: "'w Thread \<Rightarrow> 'w word" where
  "vm_tag t = vm_tag_' t"

definition set_vm_tag :: "'w word \<Rightarrow> 'w Thread \<Rightarrow> 'w Thread" where
  "set_vm_tag tag t = t\<lparr>vm_tag_' := tag\<rparr>"

text \<open>\<^verbatim>\<open>memset(&state_, 0, sizeof(state_))\<close>: every byte of the record becomes zero, so every
  field is the zero word (the null pointer for the pointer fields).\<close>

definition ClearState :: "'w::len Thread \<Rightarrow> 'w Thread" where
  "ClearState t =
     t\<lparr>state_' := \<lparr>zone = 0, top_exit_frame_info = 0, top_resource = 0, timeline_block = 0,
                  long_jump_base = 0, top_handle_scope = 0, no_handle_scope_depth = 0,
                  no_safepoint_scope_depth = 0\<rparr>\<rparr>"

text \<open>The accessors and mutators of the \<^verbatim>\<open>DEBUG\<close>-only fields. Each body is
  \<^verbatim>\<open>#if defined(DEBUG) ... #else ... #endif\<close>; the build flag is the first argument.\<close>

definition Thread_no_handle_scope_depth :: "bool \<Rightarrow> 'w::len Thread \<Rightarrow> 32 word" where
  "Thread_no_handle_scope_depth DEBUG t =
     (if DEBUG then scast (no_handle_scope_depth (state_' t)) else 0)"

definition IncrementNoHandleScopeDepth :: "bool \<Rightarrow> 'w::len Thread \<Rightarrow> error + 'w Thread" where
  "IncrementNoHandleScopeDepth DEBUG t =
     (if DEBUG then
        ASSERT DEBUG (sint (no_handle_scope_depth (state_' t)) < INT_MAX)
          (t\<lparr>state_' := (state_' t)\<lparr>no_handle_scope_depth :=
                no_handle_scope_depth (state_' t) + 1\<rparr>\<rparr>)
      else Inr t)"

definition DecrementNoHandleScopeDepth :: "bool \<Rightarrow> 'w::len Thread \<Rightarrow> error + 'w Thread" where
  "DecrementNoHandleScopeDepth DEBUG t =
     (if DEBUG then
        ASSERT DEBUG (sint (no_handle_scope_depth (state_' t)) > 0)
          (t\<lparr>state_' := (state_' t)\<lparr>no_handle_scope_depth :=
                no_handle_scope_depth (state_' t) - 1\<rparr>\<rparr>)
      else Inr t)"

definition Thread_top_handle_scope :: "bool \<Rightarrow> 'w::len Thread \<Rightarrow> 'w word" where
  "Thread_top_handle_scope DEBUG t = (if DEBUG then top_handle_scope (state_' t) else 0)"

definition set_top_handle_scope :: "bool \<Rightarrow> 'w word \<Rightarrow> 'w::len Thread \<Rightarrow> 'w Thread" where
  "set_top_handle_scope DEBUG handle_scope t =
     (if DEBUG then t\<lparr>state_' := (state_' t)\<lparr>top_handle_scope := handle_scope\<rparr>\<rparr> else t)"

definition Thread_no_safepoint_scope_depth :: "bool \<Rightarrow> 'w::len Thread \<Rightarrow> 32 word" where
  "Thread_no_safepoint_scope_depth DEBUG t =
     (if DEBUG then no_safepoint_scope_depth (state_' t) else 0)"

definition IncrementNoSafepointScopeDepth :: "bool \<Rightarrow> 'w::len Thread \<Rightarrow> error + 'w Thread" where
  "IncrementNoSafepointScopeDepth DEBUG t =
     (if DEBUG then
        ASSERT DEBUG (sint (no_safepoint_scope_depth (state_' t)) < INT_MAX)
          (t\<lparr>state_' := (state_' t)\<lparr>no_safepoint_scope_depth :=
                no_safepoint_scope_depth (state_' t) + 1\<rparr>\<rparr>)
      else Inr t)"

definition DecrementNoSafepointScopeDepth :: "bool \<Rightarrow> 'w::len Thread \<Rightarrow> error + 'w Thread" where
  "DecrementNoSafepointScopeDepth DEBUG t =
     (if DEBUG then
        ASSERT DEBUG (sint (no_safepoint_scope_depth (state_' t)) > 0)
          (t\<lparr>state_' := (state_' t)\<lparr>no_safepoint_scope_depth :=
                no_safepoint_scope_depth (state_' t) - 1\<rparr>\<rparr>)
      else Inr t)"

text \<open>\<^verbatim>\<open>REUSABLE_HANDLE_SCOPE_ACCESSORS(object)\<close>, declared in \<^verbatim>\<open>DEBUG\<close> builds only: the setter and
  the getter of the flag of one pooled handle.\<close>

definition set_reusable_handle_scope_active ::
  "ReusableHandle \<Rightarrow> bool \<Rightarrow> 'w Thread \<Rightarrow> 'w Thread" where
  "set_reusable_handle_scope_active object v t =
     t\<lparr>reusable_handle_scope_active_' := (reusable_handle_scope_active_' t)(object := v)\<rparr>"

definition reusable_handle_scope_active :: "ReusableHandle \<Rightarrow> 'w Thread \<Rightarrow> bool" where
  "reusable_handle_scope_active object t = reusable_handle_scope_active_' t object"

text \<open>\<^verbatim>\<open>IsAnyReusableHandleScopeActive()\<close>, declared in \<^verbatim>\<open>DEBUG\<close> builds only: the expansion of
  \<^verbatim>\<open>REUSABLE_HANDLE_LIST(IS_REUSABLE_HANDLE_SCOPE_ACTIVE)\<close>, one
  \<^verbatim>\<open>if (reusable_##object##_handle_scope_active_) return true;\<close> per entry in the order of the
  list, then \<^verbatim>\<open>return false\<close>.\<close>

definition IsAnyReusableHandleScopeActive :: "'w Thread \<Rightarrow> bool" where
  "IsAnyReusableHandleScopeActive t =
     (if reusable_handle_scope_active_' t AbstractTypeHandle then True
      else if reusable_handle_scope_active_' t ArrayHandle then True
      else if reusable_handle_scope_active_' t ClassHandle then True
      else if reusable_handle_scope_active_' t CodeHandle then True
      else if reusable_handle_scope_active_' t ErrorHandle then True
      else if reusable_handle_scope_active_' t ExceptionHandlersHandle then True
      else if reusable_handle_scope_active_' t FieldHandle then True
      else if reusable_handle_scope_active_' t FunctionHandle then True
      else if reusable_handle_scope_active_' t GrowableObjectArrayHandle then True
      else if reusable_handle_scope_active_' t InstanceHandle then True
      else if reusable_handle_scope_active_' t LibraryHandle then True
      else if reusable_handle_scope_active_' t ObjectHandle then True
      else if reusable_handle_scope_active_' t PcDescriptorsHandle then True
      else if reusable_handle_scope_active_' t StringHandle then True
      else if reusable_handle_scope_active_' t TypeArgumentsHandle then True
      else if reusable_handle_scope_active_' t TypeParameterHandle then True
      else False)"

text \<open>The four calls on the nesting counters, and a sequence of them run in order; the run
  stops at the first failed assertion.\<close>

datatype ScopeDepthCall =
    Call_IncrementNoHandleScopeDepth
  | Call_DecrementNoHandleScopeDepth
  | Call_IncrementNoSafepointScopeDepth
  | Call_DecrementNoSafepointScopeDepth

fun scope_depth_call :: "bool \<Rightarrow> ScopeDepthCall \<Rightarrow> 'w::len Thread \<Rightarrow> error + 'w Thread" where
  "scope_depth_call DEBUG Call_IncrementNoHandleScopeDepth t = IncrementNoHandleScopeDepth DEBUG t"
| "scope_depth_call DEBUG Call_DecrementNoHandleScopeDepth t = DecrementNoHandleScopeDepth DEBUG t"
| "scope_depth_call DEBUG Call_IncrementNoSafepointScopeDepth t =
     IncrementNoSafepointScopeDepth DEBUG t"
| "scope_depth_call DEBUG Call_DecrementNoSafepointScopeDepth t =
     DecrementNoSafepointScopeDepth DEBUG t"

fun scope_depth_calls :: "bool \<Rightarrow> ScopeDepthCall list \<Rightarrow> 'w::len Thread \<Rightarrow> error + 'w Thread" where
  "scope_depth_calls DEBUG [] t = Inr t"
| "scope_depth_calls DEBUG (c # cs) t =
     (case scope_depth_call DEBUG c t of
        Inl e \<Rightarrow> Inl e
      | Inr t' \<Rightarrow> scope_depth_calls DEBUG cs t')"

text \<open>Both counters within \<open>[0, INT_MAX]\<close>.\<close>

definition scope_depths_in_range :: "'w::len Thread \<Rightarrow> bool" where
  "scope_depths_in_range t =
     (0 \<le> sint (no_handle_scope_depth (state_' t))
      \<and> sint (no_handle_scope_depth (state_' t)) \<le> INT_MAX
      \<and> 0 \<le> sint (no_safepoint_scope_depth (state_' t))
      \<and> sint (no_safepoint_scope_depth (state_' t)) \<le> INT_MAX)"

text \<open>\<^verbatim>\<open>Thread::id()\<close>. The constant \<^verbatim>\<open>OSThread::kInvalidThreadId\<close> is declared in
  \<^verbatim>\<open>vm/os_thread.h\<close>, which is not part of the sources at hand: it is an argument.\<close>

definition Thread_id :: "bool \<Rightarrow> ThreadId \<Rightarrow> 'w Thread \<Rightarrow> error + ThreadId" where
  "Thread_id DEBUG kInvalidThreadId t = ASSERT DEBUG (id_' t \<noteq> kInvalidThreadId) (id_' t)"

text \<open>The member functions of the header that write to the thread, as calls, and a sequence
  of calls run in order; the run stops at the first failed assertion. The setter of a
  reusable-handle flag exists in \<^verbatim>\<open>DEBUG\<close> builds only. The type argument is the type of
  a pointer or \<^verbatim>\<open>uword\<close> argument, \<open>'w word\<close> below.\<close>

datatype 'a ThreadCall =
    Call_set_top_resource 'a
  | Call_scope_depth ScopeDepthCall
  | Call_set_top_handle_scope 'a
  | Call_set_timeline_block 'a
  | Call_set_long_jump_base 'a
  | Call_set_vm_tag 'a
  | Call_set_reusable_handle_scope_active ReusableHandle bool
  | Call_ClearState
  | Call_set_zone 'a
  | Call_set_top_exit_frame_info 'a

fun thread_call :: "bool \<Rightarrow> 'w word ThreadCall \<Rightarrow> 'w::len Thread \<Rightarrow> error + 'w Thread" where
  "thread_call DEBUG (Call_set_top_resource v) t = Inr (set_top_resource v t)"
| "thread_call DEBUG (Call_scope_depth c) t = scope_depth_call DEBUG c t"
| "thread_call DEBUG (Call_set_top_handle_scope v) t = Inr (set_top_handle_scope DEBUG v t)"
| "thread_call DEBUG (Call_set_timeline_block v) t = Inr (set_timeline_block v t)"
| "thread_call DEBUG (Call_set_long_jump_base v) t = Inr (set_long_jump_base v t)"
| "thread_call DEBUG (Call_set_vm_tag v) t = Inr (set_vm_tag v t)"
| "thread_call DEBUG (Call_set_reusable_handle_scope_active object v) t =
     Inr (set_reusable_handle_scope_active object v t)"
| "thread_call DEBUG Call_ClearState t = Inr (ClearState t)"
| "thread_call DEBUG (Call_set_zone v) t = Inr (set_zone v t)"
| "thread_call DEBUG (Call_set_top_exit_frame_info v) t = Inr (set_top_exit_frame_info v t)"

fun thread_calls :: "bool \<Rightarrow> 'w word ThreadCall list \<Rightarrow> 'w::len Thread \<Rightarrow> error + 'w Thread" where
  "thread_calls DEBUG [] t = Inr t"
| "thread_calls DEBUG (c # cs) t =
     (case thread_call DEBUG c t of
        Inl e \<Rightarrow> Inl e
      | Inr t' \<Rightarrow> thread_calls DEBUG cs t')"

subsection \<open>Static offset accessors\<close>

text \<open>
  Every offset accessor is a static member function whose body is \<^verbatim>\<open>OFFSET_OF(Thread, m)\<close>, or
  a sum of two such terms. The macro \<^verbatim>\<open>OFFSET_OF\<close> is defined in \<^verbatim>\<open>vm/globals.h\<close>, which is
  not part of the sources at hand, and its value is fixed by the compiler's layout of the
  class: it is an argument, a function of the two tokens the macro is given.
\<close>

type_synonym 'w offset_of = "string \<Rightarrow> string \<Rightarrow> 'w word"

definition isolate_offset :: "'w offset_of \<Rightarrow> 'w word" where
  "isolate_offset OFFSET_OF = OFFSET_OF ''Thread'' ''isolate_''"

definition store_buffer_block_offset :: "'w offset_of \<Rightarrow> 'w word" where
  "store_buffer_block_offset OFFSET_OF = OFFSET_OF ''Thread'' ''store_buffer_block_''"

definition top_exit_frame_info_offset :: "'w::len offset_of \<Rightarrow> 'w word" where
  "top_exit_frame_info_offset OFFSET_OF =
     OFFSET_OF ''Thread'' ''state_'' + OFFSET_OF ''State'' ''top_exit_frame_info''"

definition top_resource_offset :: "'w::len offset_of \<Rightarrow> 'w word" where
  "top_resource_offset OFFSET_OF =
     OFFSET_OF ''Thread'' ''state_'' + OFFSET_OF ''State'' ''top_resource''"

definition heap_offset :: "'w offset_of \<Rightarrow> 'w word" where
  "heap_offset OFFSET_OF = OFFSET_OF ''Thread'' ''heap_''"

definition vm_tag_offset :: "'w offset_of \<Rightarrow> 'w word" where
  "vm_tag_offset OFFSET_OF = OFFSET_OF ''Thread'' ''vm_tag_''"

text \<open>The member-name token of an entry of \<^verbatim>\<open>CACHED_CONSTANTS_LIST\<close>.\<close>

fun member_name :: "CachedConstant \<Rightarrow> string" where
  "member_name object_null_' = ''object_null_''"
| "member_name bool_true_' = ''bool_true_''"
| "member_name bool_false_' = ''bool_false_''"
| "member_name update_store_buffer_code_' = ''update_store_buffer_code_''"
| "member_name fix_callers_target_code_' = ''fix_callers_target_code_''"
| "member_name fix_allocation_stub_code_' = ''fix_allocation_stub_code_''"
| "member_name invoke_dart_code_stub_' = ''invoke_dart_code_stub_''"
| "member_name update_store_buffer_entry_point_' = ''update_store_buffer_entry_point_''"
| "member_name native_call_wrapper_entry_point_' = ''native_call_wrapper_entry_point_''"
| "member_name predefined_symbols_address_' = ''predefined_symbols_address_''"

text \<open>\<^verbatim>\<open>CACHED_CONSTANTS_LIST(DEFINE_OFFSET_METHOD)\<close>: the method \<^verbatim>\<open>member_name##offset()\<close> of one
  entry of the list.\<close>

definition cached_constant_offset :: "'w offset_of \<Rightarrow> CachedConstant \<Rightarrow> 'w word" where
  "cached_constant_offset OFFSET_OF c = OFFSET_OF ''Thread'' (member_name c)"

text \<open>\<^verbatim>\<open>RUNTIME_ENTRY_LIST(DEFINE_OFFSET_METHOD)\<close> and
  \<^verbatim>\<open>LEAF_RUNTIME_ENTRY_LIST(DEFINE_OFFSET_METHOD)\<close>: the method \<^verbatim>\<open>name##_entry_point_offset()\<close>
  of one name of either list.\<close>

definition entry_point_offset :: "'w offset_of \<Rightarrow> string \<Rightarrow> 'w word" where
  "entry_point_offset OFFSET_OF name = OFFSET_OF ''Thread'' (name @ ''_entry_point_'')"

text \<open>The accessors as calls. A process is a sequence of events on one thread under one
  layout: a call of a writing member function, or a call of a static offset accessor, whose
  returned value is recorded next to the accessor called.\<close>

datatype OffsetAccessor =
    Acc_isolate_offset
  | Acc_store_buffer_block_offset
  | Acc_top_exit_frame_info_offset
  | Acc_top_resource_offset
  | Acc_heap_offset
  | Acc_vm_tag_offset
  | Acc_cached_constant_offset CachedConstant
  | Acc_entry_point_offset string

fun offset_accessor :: "'w::len offset_of \<Rightarrow> OffsetAccessor \<Rightarrow> 'w word" where
  "offset_accessor OFFSET_OF Acc_isolate_offset = isolate_offset OFFSET_OF"
| "offset_accessor OFFSET_OF Acc_store_buffer_block_offset = store_buffer_block_offset OFFSET_OF"
| "offset_accessor OFFSET_OF Acc_top_exit_frame_info_offset =
     top_exit_frame_info_offset OFFSET_OF"
| "offset_accessor OFFSET_OF Acc_top_resource_offset = top_resource_offset OFFSET_OF"
| "offset_accessor OFFSET_OF Acc_heap_offset = heap_offset OFFSET_OF"
| "offset_accessor OFFSET_OF Acc_vm_tag_offset = vm_tag_offset OFFSET_OF"
| "offset_accessor OFFSET_OF (Acc_cached_constant_offset c) =
     cached_constant_offset OFFSET_OF c"
| "offset_accessor OFFSET_OF (Acc_entry_point_offset name) = entry_point_offset OFFSET_OF name"

datatype 'a Event = Member "'a ThreadCall" | Static OffsetAccessor

fun process_run ::
  "'w::len offset_of \<Rightarrow> bool \<Rightarrow> 'w word Event list \<Rightarrow> 'w Thread \<Rightarrow>
   error + ((OffsetAccessor \<times> 'w word) list \<times> 'w Thread)" where
  "process_run OFFSET_OF DEBUG [] t = Inr ([], t)"
| "process_run OFFSET_OF DEBUG (Member c # evs) t =
     (case thread_call DEBUG c t of
        Inl e \<Rightarrow> Inl e
      | Inr t' \<Rightarrow> process_run OFFSET_OF DEBUG evs t')"
| "process_run OFFSET_OF DEBUG (Static a # evs) t =
     (case process_run OFFSET_OF DEBUG evs t of
        Inl e \<Rightarrow> Inl e
      | Inr (outs, t') \<Rightarrow> Inr ((a, offset_accessor OFFSET_OF a) # outs, t'))"

section \<open>Member functions defined out of line\<close>

text \<open>
  The header only declares \<^verbatim>\<open>EnterIsolate\<close>, \<^verbatim>\<open>ExitIsolate\<close>, \<^verbatim>\<open>StoreBufferAddObject\<close>,
  \<^verbatim>\<open>StoreBufferBlockProcess\<close> and \<^verbatim>\<open>ClearReusableHandles\<close>; their bodies are in
  \<^verbatim>\<open>vm/thread.cc\<close>. The definitions of this section follow the words of the specification.
\<close>

subsection \<open>Reusable handles\<close>

text \<open>\<^verbatim>\<open>REUSABLE_HANDLE(object)\<close> of the header: the accessor \<^verbatim>\<open>object##Handle()\<close> returns
  \<^verbatim>\<open>*object##_handle_\<close>, the pooled handle; \<open>Handle\<close> is the raw reference that the handle
  holds.\<close>

definition Handle :: "ReusableHandle \<Rightarrow> 'w Thread \<Rightarrow> 'w word" where
  "Handle object t = reusable_handles_' t (handle_' t object)"

text \<open>Modelled from the spec: the body of \<^verbatim>\<open>Thread::ClearReusableHandles()\<close> is in
  \<^verbatim>\<open>vm/thread.cc\<close>, which is not part of the sources at hand. Spec section 4.5:
  "\<^verbatim>\<open>ClearReusableHandles()\<close> resets every pooled handle to an empty/null reference". The
  pooled handles are those of \<^verbatim>\<open>REUSABLE_HANDLE_LIST\<close>, written in the order of the list; the
  null reference is the argument \<open>null\<close>.\<close>

definition ClearReusableHandles :: "'w word \<Rightarrow> 'w Thread \<Rightarrow> 'w Thread" where
  "ClearReusableHandles null t =
     t\<lparr>reusable_handles_' :=
         fold (\<lambda>object store. store(handle_' t object := null)) REUSABLE_HANDLE_LIST
           (reusable_handles_' t)\<rparr>"

subsection \<open>Isolate attach and detach\<close>

text \<open>Modelled from the spec: the attach state of an execution context is kept by code that is
  not part of the sources at hand. Spec section 4.2: "States per ExecutionContext: \<^verbatim>\<open>Detached\<close>,
  \<^verbatim>\<open>AttachedAsMutator\<close>, \<^verbatim>\<open>AttachedAsHelper\<close>".\<close>

datatype AttachState = Detached | AttachedAsMutator | AttachedAsHelper

text \<open>Modelled from the spec: the body of \<^verbatim>\<open>Thread::EnterIsolate\<close> is in \<^verbatim>\<open>vm/thread.cc\<close>, which
  is not part of the sources at hand. Spec section 4.2: "\<^verbatim>\<open>EnterIsolate(isolate)\<close> transitions
  \<^verbatim>\<open>Detached\<close> to \<^verbatim>\<open>AttachedAsMutator\<close>", and "re-entering while already attached, or exiting
  while detached, is a contract violation"; section 7: a contract violation is detected by an
  internal consistency check, fatal in a checked build. The model is the checked build; the
  isolate entered, the state installed and the wait at a safepoint are left out.\<close>

definition EnterIsolate :: "AttachState \<Rightarrow> error + AttachState" where
  "EnterIsolate s = (if s = Detached then Inr AttachedAsMutator else Inl AssertionFailed)"

text \<open>Modelled from the spec: the body of \<^verbatim>\<open>Thread::ExitIsolate\<close> is in \<^verbatim>\<open>vm/thread.cc\<close>, which
  is not part of the sources at hand. Spec section 4.2: "\<^verbatim>\<open>ExitIsolate()\<close> reverses this", that
  is, it transitions \<^verbatim>\<open>AttachedAsMutator\<close> to \<^verbatim>\<open>Detached\<close>; in any other state the call does
  not match an \<^verbatim>\<open>EnterIsolate\<close> and is a contract violation.\<close>

definition ExitIsolate :: "AttachState \<Rightarrow> error + AttachState" where
  "ExitIsolate s = (if s = AttachedAsMutator then Inr Detached else Inl AssertionFailed)"

datatype IsolateCall = Call_EnterIsolate | Call_ExitIsolate

fun isolate_call :: "IsolateCall \<Rightarrow> AttachState \<Rightarrow> error + AttachState" where
  "isolate_call Call_EnterIsolate s = EnterIsolate s"
| "isolate_call Call_ExitIsolate s = ExitIsolate s"

fun isolate_calls :: "IsolateCall list \<Rightarrow> AttachState \<Rightarrow> error + AttachState" where
  "isolate_calls [] s = Inr s"
| "isolate_calls (c # cs) s =
     (case isolate_call c s of
        Inl e \<Rightarrow> Inl e
      | Inr s' \<Rightarrow> isolate_calls cs s')"

subsection \<open>The store buffer\<close>

text \<open>Modelled from the spec: \<^verbatim>\<open>StoreBuffer::ThresholdPolicy\<close> is declared in
  \<^verbatim>\<open>vm/store_buffer.h\<close>, which is not part of the sources at hand. Spec section 4.3: the buffer
  is flushed "either eagerly (\<^verbatim>\<open>kCheckThreshold\<close>) or unconditionally".\<close>

datatype ThresholdPolicy = kCheckThreshold | kUnconditional

text \<open>Modelled from the spec: the store buffer block and the record set of the isolate are
  declared in \<^verbatim>\<open>vm/store_buffer.h\<close>, which is not part of the sources at hand. Spec section 3:
  the block is "a buffer of raw object references pending promotion to the isolate's global
  write-barrier record set"; section 4.3 speaks of "a configurable threshold". Both
  containers are lists of raw references in the order of arrival, so that a reference added
  twice is there twice.\<close>

record (overloaded) 'w StoreBufferState =
  block :: "'w word list"
  record_set :: "'w word list"
  threshold :: nat

text \<open>Modelled from the spec: the body of \<^verbatim>\<open>Thread::StoreBufferBlockProcess\<close> is in
  \<^verbatim>\<open>vm/thread.cc\<close>, which is not part of the sources at hand. Spec section 4.3:
  "\<^verbatim>\<open>StoreBufferBlockProcess(policy)\<close> flushes the buffer when it exceeds a configurable
  threshold, either eagerly (\<^verbatim>\<open>kCheckThreshold\<close>) or unconditionally; flushing transfers
  entries into the isolate-global record set and resets the local buffer to empty".\<close>

definition flush :: "'w StoreBufferState \<Rightarrow> 'w StoreBufferState" where
  "flush s = s\<lparr>record_set := record_set s @ block s, block := []\<rparr>"

definition flushes :: "ThresholdPolicy \<Rightarrow> 'w StoreBufferState \<Rightarrow> bool" where
  "flushes policy s = (policy = kUnconditional \<or> threshold s < length (block s))"

definition StoreBufferBlockProcess ::
  "ThresholdPolicy \<Rightarrow> 'w StoreBufferState \<Rightarrow> 'w StoreBufferState" where
  "StoreBufferBlockProcess policy s = (if flushes policy s then flush s else s)"

text \<open>Modelled from the spec: the body of \<^verbatim>\<open>Thread::StoreBufferAddObject\<close> is in
  \<^verbatim>\<open>vm/thread.cc\<close>, which is not part of the sources at hand. Spec section 4.3:
  "\<^verbatim>\<open>StoreBufferAddObject(obj)\<close> appends a reference to the thread-local buffer"; the variant
  for the collector exists "to avoid recursive threshold checks", so this one checks the
  threshold; section 8: "a flush is triggered automatically once the threshold is
  exceeded".\<close>

definition StoreBufferAddObject :: "'w word \<Rightarrow> 'w StoreBufferState \<Rightarrow> 'w StoreBufferState" where
  "StoreBufferAddObject obj s =
     StoreBufferBlockProcess kCheckThreshold (s\<lparr>block := block s @ [obj]\<rparr>)"

text \<open>A sequence of \<^verbatim>\<open>StoreBufferAddObject\<close> calls, in order.\<close>

fun StoreBufferAddObjects :: "'w word list \<Rightarrow> 'w StoreBufferState \<Rightarrow> 'w StoreBufferState" where
  "StoreBufferAddObjects [] s = s"
| "StoreBufferAddObjects (obj # objs) s = StoreBufferAddObjects objs (StoreBufferAddObject obj s)"

text \<open>A store buffer for the concrete instances below: both containers empty, threshold 3.\<close>

definition store_buffer0 :: "64 StoreBufferState" where
  "store_buffer0 = \<lparr>block = [], record_set = [], threshold = 3\<rparr>"

text \<open>A thread for the concrete instances below: a 64-bit target, thread id 1, every other
  field zero.\<close>

definition thread0 :: "64 Thread" where
  "thread0 =
     \<lparr>id_' = 1, thread_interrupt_callback_' = 0, thread_interrupt_data_' = 0, isolate_' = 0,
      heap_' = 0,
      state_' = \<lparr>zone = 0, top_exit_frame_info = 0, top_resource = 0, timeline_block = 0,
                  long_jump_base = 0, top_handle_scope = 0, no_handle_scope_depth = 0,
                  no_safepoint_scope_depth = 0\<rparr>,
      timeline_block_lock_' = Mutex, store_buffer_block_' = 0, log_' = 0, vm_tag_' = 0,
      cached_constants = (\<lambda>_. 0), entry_point_' = (\<lambda>_. 0), handle_' = (\<lambda>_. 0),
      reusable_handle_scope_active_' = (\<lambda>_. False), reusable_handles_' = (\<lambda>_. 0)\<rparr>"

text \<open>A layout for the concrete instances below.\<close>

definition layout0 :: "64 offset_of" where
  "layout0 c m = (if m = ''isolate_'' then 24 else if m = ''vm_tag_'' then 120 else 0)"

section \<open>Properties\<close>

text \<open>
  C10. For every thread and every tag value, with no restriction on the tag,
  \<^verbatim>\<open>set_vm_tag(tag)\<close> stores the tag and a following \<^verbatim>\<open>vm_tag()\<close> returns it; every other field
  of the thread keeps its value.
\<close>

theorem set_vm_tag_roundtrip_frame:
  "vm_tag (set_vm_tag tag t) = tag
   \<and> id_' (set_vm_tag tag t) = id_' t
   \<and> thread_interrupt_callback_' (set_vm_tag tag t) = thread_interrupt_callback_' t
   \<and> thread_interrupt_data_' (set_vm_tag tag t) = thread_interrupt_data_' t
   \<and> isolate_' (set_vm_tag tag t) = isolate_' t
   \<and> heap_' (set_vm_tag tag t) = heap_' t
   \<and> state_' (set_vm_tag tag t) = state_' t
   \<and> timeline_block_lock_' (set_vm_tag tag t) = timeline_block_lock_' t
   \<and> store_buffer_block_' (set_vm_tag tag t) = store_buffer_block_' t
   \<and> log_' (set_vm_tag tag t) = log_' t
   \<and> cached_constants (set_vm_tag tag t) = cached_constants t
   \<and> entry_point_' (set_vm_tag tag t) = entry_point_' t
   \<and> handle_' (set_vm_tag tag t) = handle_' t
   \<and> reusable_handle_scope_active_' (set_vm_tag tag t) = reusable_handle_scope_active_' t
   \<and> reusable_handles_' (set_vm_tag tag t) = reusable_handles_' t
   \<and> Thread.more (set_vm_tag tag t) = Thread.more t"
  by (simp add: vm_tag_def set_vm_tag_def)

text \<open>
  C8. \<^verbatim>\<open>ClearState()\<close> sets every field of the \<^verbatim>\<open>State\<close> record of the thread (zone,
  top_exit_frame_info, top_resource, timeline_block, long_jump_base and the three debug-only
  fields) to zero, and every field of the thread outside that record keeps its value.
\<close>

theorem ClearState_zeroes_state_frame:
  "zone (state_' (ClearState t)) = 0
   \<and> top_exit_frame_info (state_' (ClearState t)) = 0
   \<and> top_resource (state_' (ClearState t)) = 0
   \<and> timeline_block (state_' (ClearState t)) = 0
   \<and> long_jump_base (state_' (ClearState t)) = 0
   \<and> top_handle_scope (state_' (ClearState t)) = 0
   \<and> no_handle_scope_depth (state_' (ClearState t)) = 0
   \<and> no_safepoint_scope_depth (state_' (ClearState t)) = 0
   \<and> id_' (ClearState t) = id_' t
   \<and> thread_interrupt_callback_' (ClearState t) = thread_interrupt_callback_' t
   \<and> thread_interrupt_data_' (ClearState t) = thread_interrupt_data_' t
   \<and> isolate_' (ClearState t) = isolate_' t
   \<and> heap_' (ClearState t) = heap_' t
   \<and> timeline_block_lock_' (ClearState t) = timeline_block_lock_' t
   \<and> store_buffer_block_' (ClearState t) = store_buffer_block_' t
   \<and> log_' (ClearState t) = log_' t
   \<and> vm_tag_' (ClearState t) = vm_tag_' t
   \<and> cached_constants (ClearState t) = cached_constants t
   \<and> entry_point_' (ClearState t) = entry_point_' t
   \<and> handle_' (ClearState t) = handle_' t
   \<and> reusable_handle_scope_active_' (ClearState t) = reusable_handle_scope_active_' t
   \<and> reusable_handles_' (ClearState t) = reusable_handles_' t
   \<and> Thread.more (ClearState t) = Thread.more t"
  by (simp add: ClearState_def)

text \<open>
  C7. In a release build (\<^verbatim>\<open>DEBUG\<close> not defined) \<^verbatim>\<open>no_handle_scope_depth()\<close>,
  \<^verbatim>\<open>no_safepoint_scope_depth()\<close> and \<^verbatim>\<open>top_handle_scope()\<close> return 0 for every thread, and
  the two increments, the two decrements and \<^verbatim>\<open>set_top_handle_scope\<close> return normally and
  leave the thread as it was.
\<close>

theorem release_build_debug_machinery_compiled_out:
  "Thread_no_handle_scope_depth False t = 0
   \<and> Thread_no_safepoint_scope_depth False t = 0
   \<and> Thread_top_handle_scope False t = 0
   \<and> IncrementNoHandleScopeDepth False t = Inr t
   \<and> DecrementNoHandleScopeDepth False t = Inr t
   \<and> IncrementNoSafepointScopeDepth False t = Inr t
   \<and> DecrementNoSafepointScopeDepth False t = Inr t
   \<and> set_top_handle_scope False handle_scope t = t"
  by (simp add: Thread_no_handle_scope_depth_def Thread_no_safepoint_scope_depth_def
      Thread_top_handle_scope_def IncrementNoHandleScopeDepth_def
      DecrementNoHandleScopeDepth_def IncrementNoSafepointScopeDepth_def
      DecrementNoSafepointScopeDepth_def set_top_handle_scope_def)

text \<open>
  C5. In a debug build \<^verbatim>\<open>IsAnyReusableHandleScopeActive()\<close> returns true if and only if at
  least one of the sixteen flags \<^verbatim>\<open>reusable_<kind>_handle_scope_active_\<close> of the thread is set,
  whatever the flags are.
\<close>

theorem IsAnyReusableHandleScopeActive_iff:
  "IsAnyReusableHandleScopeActive t \<longleftrightarrow> (\<exists>object. reusable_handle_scope_active object t)"
proof
  assume "IsAnyReusableHandleScopeActive t"
  then show "\<exists>object. reusable_handle_scope_active object t"
    unfolding IsAnyReusableHandleScopeActive_def reusable_handle_scope_active_def
    by (auto split: if_splits)
next
  assume "\<exists>object. reusable_handle_scope_active object t"
  then obtain object where "reusable_handle_scope_active_' t object"
    unfolding reusable_handle_scope_active_def by blast
  then show "IsAnyReusableHandleScopeActive t"
    unfolding IsAnyReusableHandleScopeActive_def
    by (cases object) simp_all
qed


subsection \<open>The nesting counters\<close>

lemma sint_succ_below_INT_MAX:
  fixes d :: "'w::len word"
  assumes "32 \<le> LENGTH('w)" and "sint d < INT_MAX"
  shows "sint (d + 1) = sint d + 1"
proof -
  have "(2::int) ^ 31 \<le> 2 ^ (LENGTH('w) - 1)"
    using assms(1) by (intro power_increasing) auto
  then have up: "sint d + 1 < 2 ^ (LENGTH('w) - 1)"
    using assms(2) by (simp add: INT_MAX_def)
  have lo: "- (2 ^ (LENGTH('w) - 1)) \<le> sint d + 1"
    using sint_ge [of d] by linarith
  have "sint (d + 1) = signed_take_bit (LENGTH('w) - 1) (sint d + sint (1 :: 'w word))"
    by (simp add: sint_word_ariths)
  also have "sint (1 :: 'w word) = 1"
    using assms(1) by (cases "LENGTH('w) = 1") auto
  finally show ?thesis
    using lo up by (simp add: signed_take_bit_int_eq_self)
qed

lemma sint_pred_above_zero:
  fixes d :: "'w::len word"
  assumes "0 < sint d"
  shows "sint (d - 1) = sint d - 1"
proof -
  have one: "sint (1 :: 'w word) = 1"
  proof (cases "LENGTH('w) = 1")
    case True
    then have "sint d < 1" using sint_lt [of d] by simp
    with assms show ?thesis by simp
  next
    case False
    then show ?thesis by auto
  qed
  have up: "sint d - 1 < 2 ^ (LENGTH('w) - 1)"
    using sint_lt [of d] by linarith
  have lo: "- (2 ^ (LENGTH('w) - 1)) \<le> sint d - 1"
    using assms by (smt (verit) zero_le_power)
  have "sint (d - 1) = signed_take_bit (LENGTH('w) - 1) (sint d - sint (1 :: 'w word))"
    by (simp add: sint_word_ariths)
  then show ?thesis
    using one lo up by (simp add: signed_take_bit_int_eq_self)
qed


lemma sint_scast_32_in_range:
  fixes d :: "'w::len word"
  assumes "0 \<le> sint d" and "sint d \<le> INT_MAX"
  shows "sint (scast d :: 32 word) = sint d"
proof -
  have "sint (scast d :: 32 word) = signed_take_bit 31 (sint d)"
    by (simp add: signed_scast_eq)
  also have "\<dots> = sint d"
    using assms by (intro signed_take_bit_int_eq_self) (simp_all add: INT_MAX_def)
  finally show ?thesis .
qed

lemma sint_32_le_INT_MAX: "sint (d :: 32 word) \<le> INT_MAX"
  using sint_lt [of d] by (simp add: INT_MAX_def)

lemma IncrementNoHandleScopeDepth_step:
  fixes t :: "'w::len Thread"
  assumes len: "32 \<le> LENGTH('w)" and rng: "scope_depths_in_range t"
  shows "case IncrementNoHandleScopeDepth True t of
           Inl e \<Rightarrow> sint (no_handle_scope_depth (state_' t)) = INT_MAX
         | Inr t' \<Rightarrow>
             sint (no_handle_scope_depth (state_' t)) < INT_MAX \<and>
             sint (no_handle_scope_depth (state_' t')) =
               sint (no_handle_scope_depth (state_' t)) + 1
             \<and> no_safepoint_scope_depth (state_' t') = no_safepoint_scope_depth (state_' t)
             \<and> scope_depths_in_range t'"
proof (cases "sint (no_handle_scope_depth (state_' t)) < INT_MAX")
  case True
  from sint_succ_below_INT_MAX [OF len True] True rng show ?thesis
    by (simp add: IncrementNoHandleScopeDepth_def ASSERT_def scope_depths_in_range_def)
next
  case False
  with rng show ?thesis
    by (simp add: IncrementNoHandleScopeDepth_def ASSERT_def scope_depths_in_range_def)
qed

lemma DecrementNoHandleScopeDepth_step:
  fixes t :: "'w::len Thread"
  assumes rng: "scope_depths_in_range t"
  shows "case DecrementNoHandleScopeDepth True t of
           Inl e \<Rightarrow> sint (no_handle_scope_depth (state_' t)) = 0
         | Inr t' \<Rightarrow>
             0 < sint (no_handle_scope_depth (state_' t)) \<and>
             sint (no_handle_scope_depth (state_' t')) =
               sint (no_handle_scope_depth (state_' t)) - 1
             \<and> no_safepoint_scope_depth (state_' t') = no_safepoint_scope_depth (state_' t)
             \<and> scope_depths_in_range t'"
proof (cases "0 < sint (no_handle_scope_depth (state_' t))")
  case True
  from sint_pred_above_zero [OF True] True rng show ?thesis
    by (simp add: DecrementNoHandleScopeDepth_def ASSERT_def scope_depths_in_range_def)
next
  case False
  with rng show ?thesis
    by (simp add: DecrementNoHandleScopeDepth_def ASSERT_def scope_depths_in_range_def)
qed

lemma IncrementNoSafepointScopeDepth_step:
  fixes t :: "'w::len Thread"
  assumes rng: "scope_depths_in_range t"
  shows "case IncrementNoSafepointScopeDepth True t of
           Inl e \<Rightarrow> sint (no_safepoint_scope_depth (state_' t)) = INT_MAX
         | Inr t' \<Rightarrow>
             sint (no_safepoint_scope_depth (state_' t)) < INT_MAX \<and>
             sint (no_safepoint_scope_depth (state_' t')) =
               sint (no_safepoint_scope_depth (state_' t)) + 1
             \<and> no_handle_scope_depth (state_' t') = no_handle_scope_depth (state_' t)
             \<and> scope_depths_in_range t'"
proof (cases "sint (no_safepoint_scope_depth (state_' t)) < INT_MAX")
  case True
  have "sint (no_safepoint_scope_depth (state_' t) + 1) =
          sint (no_safepoint_scope_depth (state_' t)) + 1"
    by (rule sint_succ_below_INT_MAX [OF _ True]) simp
  with True rng show ?thesis
    by (simp add: IncrementNoSafepointScopeDepth_def ASSERT_def scope_depths_in_range_def)
next
  case False
  with rng show ?thesis
    by (simp add: IncrementNoSafepointScopeDepth_def ASSERT_def scope_depths_in_range_def)
qed

lemma DecrementNoSafepointScopeDepth_step:
  fixes t :: "'w::len Thread"
  assumes rng: "scope_depths_in_range t"
  shows "case DecrementNoSafepointScopeDepth True t of
           Inl e \<Rightarrow> sint (no_safepoint_scope_depth (state_' t)) = 0
         | Inr t' \<Rightarrow>
             0 < sint (no_safepoint_scope_depth (state_' t)) \<and>
             sint (no_safepoint_scope_depth (state_' t')) =
               sint (no_safepoint_scope_depth (state_' t)) - 1
             \<and> no_handle_scope_depth (state_' t') = no_handle_scope_depth (state_' t)
             \<and> scope_depths_in_range t'"
proof (cases "0 < sint (no_safepoint_scope_depth (state_' t))")
  case True
  from sint_pred_above_zero [OF True] True rng show ?thesis
    by (simp add: DecrementNoSafepointScopeDepth_def ASSERT_def scope_depths_in_range_def)
next
  case False
  with rng show ?thesis
    by (simp add: DecrementNoSafepointScopeDepth_def ASSERT_def scope_depths_in_range_def)
qed

lemma scope_depth_call_step:
  fixes t :: "'w::len Thread"
  assumes len: "32 \<le> LENGTH('w)" and rng: "scope_depths_in_range t"
    and ok: "scope_depth_call True c t = Inr t'"
  shows "scope_depths_in_range t'
         \<and> sint (no_handle_scope_depth (state_' t')) =
             sint (no_handle_scope_depth (state_' t))
             + int (count_list [c] Call_IncrementNoHandleScopeDepth)
             - int (count_list [c] Call_DecrementNoHandleScopeDepth)
         \<and> sint (no_safepoint_scope_depth (state_' t')) =
             sint (no_safepoint_scope_depth (state_' t))
             + int (count_list [c] Call_IncrementNoSafepointScopeDepth)
             - int (count_list [c] Call_DecrementNoSafepointScopeDepth)"
proof (cases c)
  case Call_IncrementNoHandleScopeDepth
  with IncrementNoHandleScopeDepth_step [OF len rng] ok show ?thesis by simp
next
  case Call_DecrementNoHandleScopeDepth
  with DecrementNoHandleScopeDepth_step [OF rng] ok show ?thesis by simp
next
  case Call_IncrementNoSafepointScopeDepth
  with IncrementNoSafepointScopeDepth_step [OF rng] ok show ?thesis by simp
next
  case Call_DecrementNoSafepointScopeDepth
  with DecrementNoSafepointScopeDepth_step [OF rng] ok show ?thesis by simp
qed

lemma scope_depth_calls_run:
  fixes t :: "'w::len Thread"
  assumes len: "32 \<le> LENGTH('w)"
  shows "scope_depths_in_range t \<Longrightarrow> scope_depth_calls True cs t = Inr t' \<Longrightarrow>
         scope_depths_in_range t'
         \<and> sint (no_handle_scope_depth (state_' t')) =
             sint (no_handle_scope_depth (state_' t))
             + int (count_list cs Call_IncrementNoHandleScopeDepth)
             - int (count_list cs Call_DecrementNoHandleScopeDepth)
         \<and> sint (no_safepoint_scope_depth (state_' t')) =
             sint (no_safepoint_scope_depth (state_' t))
             + int (count_list cs Call_IncrementNoSafepointScopeDepth)
             - int (count_list cs Call_DecrementNoSafepointScopeDepth)"
proof (induction cs arbitrary: t)
  case Nil
  then show ?case by simp
next
  case (Cons c cs)
  from Cons.prems(2) obtain t1 where
    c: "scope_depth_call True c t = Inr t1" and cs: "scope_depth_calls True cs t1 = Inr t'"
    by (auto split: sum.splits)
  note s = scope_depth_call_step [OF len Cons.prems(1) c]
  from s have r1: "scope_depths_in_range t1" by simp
  from Cons.IH [OF r1 cs] s show ?case
    by (cases c) simp_all
qed

text \<open>
  C6. In a debug build, from a thread whose two nesting counters are within \<open>[0, INT_MAX]\<close>
  (\<^verbatim>\<open>ClearState()\<close> leaves both at 0): an increment fails its assertion exactly when the
  counter is \<open>INT_MAX\<close>, a decrement exactly when it is 0; a call that does not fail changes
  its counter by exactly one, leaves the other counter alone and keeps both within the range;
  after any sequence of the four calls that runs to its end both counters are within the
  range, each equals its starting value plus the number of its increments minus the number of
  its decrements, and the accessors return the counters. \<^verbatim>\<open>intptr_t\<close> has at least 32 bits.
\<close>

theorem scope_depth_counters:
  fixes t :: "'w::len Thread"
  assumes len: "32 \<le> LENGTH('w)" and rng: "scope_depths_in_range t"
  shows
    "(case IncrementNoHandleScopeDepth True t of
        Inl e \<Rightarrow> sint (no_handle_scope_depth (state_' t)) = INT_MAX
      | Inr t' \<Rightarrow>
          sint (no_handle_scope_depth (state_' t)) < INT_MAX \<and>
          sint (no_handle_scope_depth (state_' t')) =
            sint (no_handle_scope_depth (state_' t)) + 1
          \<and> no_safepoint_scope_depth (state_' t') = no_safepoint_scope_depth (state_' t)
          \<and> scope_depths_in_range t')
     \<and> (case DecrementNoHandleScopeDepth True t of
        Inl e \<Rightarrow> sint (no_handle_scope_depth (state_' t)) = 0
      | Inr t' \<Rightarrow>
          0 < sint (no_handle_scope_depth (state_' t)) \<and>
          sint (no_handle_scope_depth (state_' t')) =
            sint (no_handle_scope_depth (state_' t)) - 1
          \<and> no_safepoint_scope_depth (state_' t') = no_safepoint_scope_depth (state_' t)
          \<and> scope_depths_in_range t')
     \<and> (case IncrementNoSafepointScopeDepth True t of
        Inl e \<Rightarrow> sint (no_safepoint_scope_depth (state_' t)) = INT_MAX
      | Inr t' \<Rightarrow>
          sint (no_safepoint_scope_depth (state_' t)) < INT_MAX \<and>
          sint (no_safepoint_scope_depth (state_' t')) =
            sint (no_safepoint_scope_depth (state_' t)) + 1
          \<and> no_handle_scope_depth (state_' t') = no_handle_scope_depth (state_' t)
          \<and> scope_depths_in_range t')
     \<and> (case DecrementNoSafepointScopeDepth True t of
        Inl e \<Rightarrow> sint (no_safepoint_scope_depth (state_' t)) = 0
      | Inr t' \<Rightarrow>
          0 < sint (no_safepoint_scope_depth (state_' t)) \<and>
          sint (no_safepoint_scope_depth (state_' t')) =
            sint (no_safepoint_scope_depth (state_' t)) - 1
          \<and> no_handle_scope_depth (state_' t') = no_handle_scope_depth (state_' t)
          \<and> scope_depths_in_range t')
     \<and> (\<forall>cs t'. scope_depth_calls True cs t = Inr t' \<longrightarrow>
          scope_depths_in_range t'
          \<and> sint (no_handle_scope_depth (state_' t')) =
              sint (no_handle_scope_depth (state_' t))
              + int (count_list cs Call_IncrementNoHandleScopeDepth)
              - int (count_list cs Call_DecrementNoHandleScopeDepth)
          \<and> sint (no_safepoint_scope_depth (state_' t')) =
              sint (no_safepoint_scope_depth (state_' t))
              + int (count_list cs Call_IncrementNoSafepointScopeDepth)
              - int (count_list cs Call_DecrementNoSafepointScopeDepth)
          \<and> sint (Thread_no_handle_scope_depth True t') =
              sint (no_handle_scope_depth (state_' t'))
          \<and> sint (Thread_no_safepoint_scope_depth True t') =
              sint (no_safepoint_scope_depth (state_' t')))"
proof (intro conjI allI impI)
  show "case IncrementNoHandleScopeDepth True t of
        Inl e \<Rightarrow> sint (no_handle_scope_depth (state_' t)) = INT_MAX
      | Inr t' \<Rightarrow>
          sint (no_handle_scope_depth (state_' t)) < INT_MAX \<and>
          sint (no_handle_scope_depth (state_' t')) =
            sint (no_handle_scope_depth (state_' t)) + 1
          \<and> no_safepoint_scope_depth (state_' t') = no_safepoint_scope_depth (state_' t)
          \<and> scope_depths_in_range t'"
    by (rule IncrementNoHandleScopeDepth_step [OF len rng])
  show "case DecrementNoHandleScopeDepth True t of
        Inl e \<Rightarrow> sint (no_handle_scope_depth (state_' t)) = 0
      | Inr t' \<Rightarrow>
          0 < sint (no_handle_scope_depth (state_' t)) \<and>
          sint (no_handle_scope_depth (state_' t')) =
            sint (no_handle_scope_depth (state_' t)) - 1
          \<and> no_safepoint_scope_depth (state_' t') = no_safepoint_scope_depth (state_' t)
          \<and> scope_depths_in_range t'"
    by (rule DecrementNoHandleScopeDepth_step [OF rng])
  show "case IncrementNoSafepointScopeDepth True t of
        Inl e \<Rightarrow> sint (no_safepoint_scope_depth (state_' t)) = INT_MAX
      | Inr t' \<Rightarrow>
          sint (no_safepoint_scope_depth (state_' t)) < INT_MAX \<and>
          sint (no_safepoint_scope_depth (state_' t')) =
            sint (no_safepoint_scope_depth (state_' t)) + 1
          \<and> no_handle_scope_depth (state_' t') = no_handle_scope_depth (state_' t)
          \<and> scope_depths_in_range t'"
    by (rule IncrementNoSafepointScopeDepth_step [OF rng])
  show "case DecrementNoSafepointScopeDepth True t of
        Inl e \<Rightarrow> sint (no_safepoint_scope_depth (state_' t)) = 0
      | Inr t' \<Rightarrow>
          0 < sint (no_safepoint_scope_depth (state_' t)) \<and>
          sint (no_safepoint_scope_depth (state_' t')) =
            sint (no_safepoint_scope_depth (state_' t)) - 1
          \<and> no_handle_scope_depth (state_' t') = no_handle_scope_depth (state_' t)
          \<and> scope_depths_in_range t'"
    by (rule DecrementNoSafepointScopeDepth_step [OF rng])
next
  fix cs t'
  assume run: "scope_depth_calls True cs t = Inr t'"
  note r = scope_depth_calls_run [OF len rng run]
  from r show "scope_depths_in_range t'" by simp
  from r show "sint (no_handle_scope_depth (state_' t')) =
              sint (no_handle_scope_depth (state_' t))
              + int (count_list cs Call_IncrementNoHandleScopeDepth)
              - int (count_list cs Call_DecrementNoHandleScopeDepth)" by simp
  from r show "sint (no_safepoint_scope_depth (state_' t')) =
              sint (no_safepoint_scope_depth (state_' t))
              + int (count_list cs Call_IncrementNoSafepointScopeDepth)
              - int (count_list cs Call_DecrementNoSafepointScopeDepth)" by simp
  from r have "scope_depths_in_range t'" by simp
  then show "sint (Thread_no_handle_scope_depth True t') =
              sint (no_handle_scope_depth (state_' t'))"
    by (simp add: Thread_no_handle_scope_depth_def scope_depths_in_range_def
        sint_scast_32_in_range)
  show "sint (Thread_no_safepoint_scope_depth True t') =
              sint (no_safepoint_scope_depth (state_' t'))"
    by (simp add: Thread_no_safepoint_scope_depth_def)
qed


theorem scope_depth_counters_witness:
  "32 \<le> LENGTH(64)
   \<and> scope_depths_in_range (ClearState thread0)
   \<and> DecrementNoHandleScopeDepth True (ClearState thread0) = Inl AssertionFailed
   \<and> (\<exists>t'. scope_depth_calls True
              [Call_IncrementNoHandleScopeDepth, Call_IncrementNoSafepointScopeDepth,
               Call_IncrementNoHandleScopeDepth, Call_DecrementNoHandleScopeDepth]
              (ClearState thread0) = Inr t'
            \<and> scope_depths_in_range t'
            \<and> sint (no_handle_scope_depth (state_' t')) = 1
            \<and> sint (no_safepoint_scope_depth (state_' t')) = 1
            \<and> sint (Thread_no_handle_scope_depth True t') = 1)"
proof -
  have len: "32 \<le> LENGTH(64)" by simp
  have rng: "scope_depths_in_range (ClearState thread0)"
    by (simp add: scope_depths_in_range_def ClearState_def INT_MAX_def)
  have z: "sint (no_handle_scope_depth (state_' (ClearState thread0))) = 0"
          "sint (no_safepoint_scope_depth (state_' (ClearState thread0))) = 0"
    by (simp_all add: ClearState_def)
  have dec: "DecrementNoHandleScopeDepth True (ClearState thread0) = Inl AssertionFailed"
    by (simp add: DecrementNoHandleScopeDepth_def ASSERT_def ClearState_def)
  obtain t' where run: "scope_depth_calls True
              [Call_IncrementNoHandleScopeDepth, Call_IncrementNoSafepointScopeDepth,
               Call_IncrementNoHandleScopeDepth, Call_DecrementNoHandleScopeDepth]
              (ClearState thread0) = Inr t'"
    by (simp add: IncrementNoHandleScopeDepth_def DecrementNoHandleScopeDepth_def
        IncrementNoSafepointScopeDepth_def ASSERT_def ClearState_def INT_MAX_def thread0_def)
  note scope_depth_counters [OF len rng, THEN conjunct2, THEN conjunct2, THEN conjunct2,
      THEN conjunct2, rule_format, OF run]
  with z
  have "scope_depths_in_range t'
        \<and> sint (no_handle_scope_depth (state_' t')) = 1
        \<and> sint (no_safepoint_scope_depth (state_' t')) = 1
        \<and> sint (Thread_no_handle_scope_depth True t') = 1"
    by simp
  with len rng dec run show ?thesis by blast
qed


subsection \<open>Thread identity\<close>

lemma scope_depth_call_id:
  "scope_depth_call DEBUG c t = Inr t' \<Longrightarrow> id_' t' = id_' t"
  by (cases c)
    (auto simp: IncrementNoHandleScopeDepth_def DecrementNoHandleScopeDepth_def
      IncrementNoSafepointScopeDepth_def DecrementNoSafepointScopeDepth_def ASSERT_def
      split: if_splits)

lemma thread_call_id:
  "thread_call DEBUG c t = Inr t' \<Longrightarrow> id_' t' = id_' t"
  by (cases c)
    (auto simp: set_top_resource_def set_top_handle_scope_def set_timeline_block_def
      set_long_jump_base_def set_vm_tag_def set_reusable_handle_scope_active_def
      ClearState_def set_zone_def set_top_exit_frame_info_def
      dest: scope_depth_call_id)

lemma thread_calls_id:
  "thread_calls DEBUG cs t = Inr t' \<Longrightarrow> id_' t' = id_' t"
proof (induction cs arbitrary: t)
  case Nil
  then show ?case by simp
next
  case (Cons c cs)
  from Cons.prems obtain t1 where
    c: "thread_call DEBUG c t = Inr t1" and cs: "thread_calls DEBUG cs t1 = Inr t'"
    by (auto split: sum.splits)
  from Cons.IH [OF cs] thread_call_id [OF c] show ?case by simp
qed

text \<open>
  C9. The identity of a thread does not change: no writing member function of the header
  assigns \<^verbatim>\<open>id_\<close> (the member is declared \<^verbatim>\<open>const\<close>), so after every sequence of such calls
  that runs to its end \<^verbatim>\<open>id()\<close> returns what it returned before the sequence, which is the
  stored id; \<^verbatim>\<open>id()\<close> asserts that the stored id is not the invalid thread id, and the
  assertion fails, in a debug build, exactly when it is.
\<close>

theorem thread_id_immutable:
  "thread_calls DEBUG cs t = Inr t' \<Longrightarrow>
     id_' t' = id_' t
     \<and> Thread_id DEBUG kInvalidThreadId t' = Thread_id DEBUG kInvalidThreadId t
     \<and> Thread_id DEBUG kInvalidThreadId t' =
         (if DEBUG \<and> id_' t = kInvalidThreadId then Inl AssertionFailed else Inr (id_' t))"
  by (frule thread_calls_id) (simp add: Thread_id_def ASSERT_def)

theorem thread_id_immutable_witness:
  "\<exists>t'. thread_calls True
          [Call_set_vm_tag 7, Call_ClearState,
           Call_scope_depth Call_IncrementNoHandleScopeDepth, Call_set_zone 4096]
          thread0 = Inr t'
        \<and> id_' t' = 1
        \<and> Thread_id True 0 t' = Inr 1"
proof -
  obtain t' where run: "thread_calls True
          [Call_set_vm_tag 7, Call_ClearState,
           Call_scope_depth Call_IncrementNoHandleScopeDepth, Call_set_zone 4096]
          thread0 = Inr t'"
    by (simp add: IncrementNoHandleScopeDepth_def ASSERT_def ClearState_def INT_MAX_def
        set_vm_tag_def)
  note th = thread_id_immutable [OF run, of 0]
  from th [THEN conjunct1] have a: "id_' t' = 1" by (simp add: thread0_def)
  from th [THEN conjunct2, THEN conjunct2] have b: "Thread_id True 0 t' = Inr 1"
    by (simp add: thread0_def)
  from a b have "id_' t' = 1 \<and> Thread_id True 0 t' = Inr 1" by simp
  with run show ?thesis by blast
qed

subsection \<open>Offset accessors\<close>

lemma process_run_outs:
  "process_run OFFSET_OF DEBUG evs t = Inr (outs, t') \<Longrightarrow> (a, v) \<in> set outs \<Longrightarrow>
     v = offset_accessor OFFSET_OF a"
proof (induction OFFSET_OF DEBUG evs t arbitrary: outs t' rule: process_run.induct)
  case (1 OFFSET_OF DEBUG t)
  then show ?case by simp
next
  case (2 OFFSET_OF DEBUG c evs t)
  then show ?case by (auto split: sum.splits)
next
  case (3 OFFSET_OF DEBUG b evs t)
  then show ?case by (auto split: sum.splits prod.splits)
qed

text \<open>
  C3. Every static offset accessor of the thread (\<^verbatim>\<open>isolate_offset\<close>,
  \<^verbatim>\<open>store_buffer_block_offset\<close>, \<^verbatim>\<open>top_exit_frame_info_offset\<close>, \<^verbatim>\<open>top_resource_offset\<close>,
  \<^verbatim>\<open>heap_offset\<close>, \<^verbatim>\<open>vm_tag_offset\<close>, the offset method of every cached constant and of
  every runtime entry) is stable over a run of the process: whatever member functions are
  called on the thread in between, any two calls of the same accessor return the same value.
\<close>

theorem offset_accessors_stable:
  assumes run: "process_run OFFSET_OF DEBUG evs t = Inr (outs, t')"
  shows "\<forall>(a, v) \<in> set outs. \<forall>(a', v') \<in> set outs. a = a' \<longrightarrow> v = v'"
proof (intro ballI, clarify)
  fix a v a' v'
  assume "(a, v) \<in> set outs" and "(a, v') \<in> set outs"
  then show "v = v'"
    using process_run_outs [OF run] by metis
qed

theorem offset_accessors_stable_witness:
  "\<exists>outs t'. process_run layout0 True
       [Static Acc_isolate_offset, Member (Call_set_vm_tag 5), Static Acc_vm_tag_offset,
        Member Call_ClearState, Static Acc_isolate_offset]
       thread0 = Inr (outs, t')
     \<and> length outs = 3
     \<and> fst (outs ! 0) = fst (outs ! 2)
     \<and> snd (outs ! 0) = snd (outs ! 2)"
proof -
  obtain outs t' where run: "process_run layout0 True
       [Static Acc_isolate_offset, Member (Call_set_vm_tag 5), Static Acc_vm_tag_offset,
        Member Call_ClearState, Static Acc_isolate_offset]
       thread0 = Inr (outs, t')"
    and len: "length outs = 3" and acc: "fst (outs ! 0) = fst (outs ! 2)"
    by simp
  have "outs ! 0 \<in> set outs" "outs ! 2 \<in> set outs"
    using len by simp_all
  with offset_accessors_stable [OF run] acc have "snd (outs ! 0) = snd (outs ! 2)"
    by (cases "outs ! 0"; cases "outs ! 2") fastforce
  with run len acc show ?thesis by blast
qed

subsection \<open>Reusable handles cleared\<close>

lemma fold_update_other:
  "a \<notin> f ` set xs \<Longrightarrow> fold (\<lambda>x m. m(f x := v)) xs m a = m a"
  by (induction xs arbitrary: m) auto

lemma fold_update_const:
  "a \<in> f ` set xs \<Longrightarrow> fold (\<lambda>x m. m(f x := v)) xs m a = v"
proof (induction xs arbitrary: m)
  case Nil
  then show ?case by simp
next
  case (Cons x xs)
  show ?case
  proof (cases "a \<in> f ` set xs")
    case True
    from Cons.IH [OF True] show ?thesis by simp
  next
    case False
    with Cons.prems have a: "a = f x" by auto
    from fold_update_other [OF False, of v "m(f x := v)"]
    have "fold (\<lambda>x m. m(f x := v)) xs (m(f x := v)) a = (m(f x := v)) a" .
    also have "\<dots> = v" using a by simp
    finally show ?thesis by (simp only: fold_Cons comp_apply)
  qed
qed

lemma REUSABLE_HANDLE_LIST_complete: "object \<in> set REUSABLE_HANDLE_LIST"
  by (cases object) (simp_all add: REUSABLE_HANDLE_LIST_def)

text \<open>
  C4. After \<^verbatim>\<open>ClearReusableHandles()\<close> returns, every pooled reusable handle of the thread, one
  per entry of the reusable-handle list (AbstractType, Array, Class, Code, ..., TypeParameter),
  holds the null reference.
\<close>

theorem ClearReusableHandles_all_null:
  "Handle object (ClearReusableHandles null t) = null"
proof -
  have "handle_' t object \<in> handle_' t ` set REUSABLE_HANDLE_LIST"
    using REUSABLE_HANDLE_LIST_complete by (rule imageI)
  then have "fold (\<lambda>object store. store(handle_' t object := null)) REUSABLE_HANDLE_LIST
               (reusable_handles_' t) (handle_' t object) = null"
    by (rule fold_update_const)
  moreover have "reusable_handles_' (ClearReusableHandles null t) =
      fold (\<lambda>object store. store(handle_' t object := null)) REUSABLE_HANDLE_LIST
        (reusable_handles_' t)"
    by (simp add: ClearReusableHandles_def)
  moreover have "handle_' (ClearReusableHandles null t) = handle_' t"
    by (simp add: ClearReusableHandles_def)
  ultimately show ?thesis
    by (simp only: Handle_def)
qed

subsection \<open>Isolate attach and detach protocol\<close>

lemma alternate_Cons:
  "(\<forall>i<length (c # cs). (c # cs) ! i = (if even i then a else b)) \<longleftrightarrow>
     c = a \<and> (\<forall>i<length cs. cs ! i = (if even i then b else a))"
proof -
  have "(\<forall>i<Suc (length cs). (c # cs) ! i = (if even i then a else b)) \<longleftrightarrow>
          (c # cs) ! 0 = (if even (0::nat) then a else b)
          \<and> (\<forall>i<length cs. (c # cs) ! Suc i = (if even (Suc i) then a else b))"
    by (rule All_less_Suc2)
  moreover have "\<And>i. (if even (Suc i) then a else b) = (if even i then b else a)"
    by simp
  ultimately show ?thesis
    by (simp only: length_Cons nth_Cons_0 nth_Cons_Suc even_zero if_True)
qed

lemma isolate_calls_alternate:
  "(isolate_calls cs Detached = Inr s \<longleftrightarrow>
      (\<forall>i<length cs. cs ! i = (if even i then Call_EnterIsolate else Call_ExitIsolate))
      \<and> s = (if even (length cs) then Detached else AttachedAsMutator))
   \<and> (isolate_calls cs AttachedAsMutator = Inr s \<longleftrightarrow>
      (\<forall>i<length cs. cs ! i = (if even i then Call_ExitIsolate else Call_EnterIsolate))
      \<and> s = (if even (length cs) then AttachedAsMutator else Detached))"
proof (induction cs)
  case Nil
  show ?case by auto
next
  case (Cons c cs)
  from Cons.IH have
    D: "isolate_calls cs Detached = Inr s \<longleftrightarrow>
      (\<forall>i<length cs. cs ! i = (if even i then Call_EnterIsolate else Call_ExitIsolate))
      \<and> s = (if even (length cs) then Detached else AttachedAsMutator)"
    and M: "isolate_calls cs AttachedAsMutator = Inr s \<longleftrightarrow>
      (\<forall>i<length cs. cs ! i = (if even i then Call_ExitIsolate else Call_EnterIsolate))
      \<and> s = (if even (length cs) then AttachedAsMutator else Detached)"
    by blast+
  have len: "even (length (c # cs)) \<longleftrightarrow> odd (length cs)" by simp
  have "isolate_calls (c # cs) Detached = Inr s \<longleftrightarrow>
          c = Call_EnterIsolate \<and> isolate_calls cs AttachedAsMutator = Inr s"
    by (cases c) (simp_all add: EnterIsolate_def ExitIsolate_def)
  then have 1: "isolate_calls (c # cs) Detached = Inr s \<longleftrightarrow>
      (\<forall>i<length (c # cs). (c # cs) ! i =
          (if even i then Call_EnterIsolate else Call_ExitIsolate))
      \<and> s = (if even (length (c # cs)) then Detached else AttachedAsMutator)"
    unfolding alternate_Cons M len by (cases "even (length cs)") simp_all
  have "isolate_calls (c # cs) AttachedAsMutator = Inr s \<longleftrightarrow>
          c = Call_ExitIsolate \<and> isolate_calls cs Detached = Inr s"
    by (cases c) (simp_all add: EnterIsolate_def ExitIsolate_def)
  then have 2: "isolate_calls (c # cs) AttachedAsMutator = Inr s \<longleftrightarrow>
      (\<forall>i<length (c # cs). (c # cs) ! i =
          (if even i then Call_ExitIsolate else Call_EnterIsolate))
      \<and> s = (if even (length (c # cs)) then AttachedAsMutator else Detached)"
    unfolding alternate_Cons D len by (cases "even (length cs)") simp_all
  from 1 2 show ?case by (rule conjI)
qed

lemma isolate_calls_last:
  assumes "isolate_calls cs Detached = Inr s"
  shows "s = AttachedAsMutator \<longleftrightarrow> cs \<noteq> [] \<and> last cs = Call_EnterIsolate"
proof -
  from assms isolate_calls_alternate [of cs s]
  have alt: "\<forall>i<length cs. cs ! i = (if even i then Call_EnterIsolate else Call_ExitIsolate)"
    and s: "s = (if even (length cs) then Detached else AttachedAsMutator)"
    by simp_all
  show ?thesis
  proof (cases "cs = []")
    case True
    with s show ?thesis by simp
  next
    case False
    then have l: "last cs = cs ! (length cs - 1)" and n: "length cs - 1 < length cs"
      by (simp_all add: last_conv_nth)
    from alt n have "cs ! (length cs - 1) =
        (if even (length cs - 1) then Call_EnterIsolate else Call_ExitIsolate)"
      by blast
    with l False s show ?thesis
      by (cases "even (length cs)") (auto simp: )
  qed
qed

text \<open>
  C1. For every sequence of \<^verbatim>\<open>EnterIsolate\<close>/\<^verbatim>\<open>ExitIsolate\<close> calls on one execution context,
  started detached: the calls all succeed exactly when they alternate, beginning with
  \<^verbatim>\<open>EnterIsolate\<close>; the context is then in state \<^verbatim>\<open>AttachedAsMutator\<close> exactly when the last
  call was an \<^verbatim>\<open>EnterIsolate\<close>, that is, strictly between a successful \<^verbatim>\<open>EnterIsolate\<close> and
  its matching \<^verbatim>\<open>ExitIsolate\<close>. \<^verbatim>\<open>EnterIsolate\<close> on an attached context and \<^verbatim>\<open>ExitIsolate\<close>
  on a detached one fail the contract check.
\<close>

theorem isolate_attach_protocol:
  "EnterIsolate Detached = Inr AttachedAsMutator
   \<and> ExitIsolate AttachedAsMutator = Inr Detached
   \<and> EnterIsolate AttachedAsMutator = Inl AssertionFailed
   \<and> EnterIsolate AttachedAsHelper = Inl AssertionFailed
   \<and> ExitIsolate Detached = Inl AssertionFailed
   \<and> (\<forall>cs s. isolate_calls cs Detached = Inr s \<longleftrightarrow>
        (\<forall>i<length cs. cs ! i = (if even i then Call_EnterIsolate else Call_ExitIsolate))
        \<and> s = (if even (length cs) then Detached else AttachedAsMutator))
   \<and> (\<forall>cs s. isolate_calls cs Detached = Inr s \<longrightarrow>
        (s = AttachedAsMutator \<longleftrightarrow> cs \<noteq> [] \<and> last cs = Call_EnterIsolate))"
proof (intro conjI allI impI)
  fix cs s
  show "isolate_calls cs Detached = Inr s \<longleftrightarrow>
        (\<forall>i<length cs. cs ! i = (if even i then Call_EnterIsolate else Call_ExitIsolate))
        \<and> s = (if even (length cs) then Detached else AttachedAsMutator)"
    using isolate_calls_alternate [of cs s] by (rule conjunct1)
next
  fix cs s
  assume "isolate_calls cs Detached = Inr s"
  then show "s = AttachedAsMutator \<longleftrightarrow> cs \<noteq> [] \<and> last cs = Call_EnterIsolate"
    by (rule isolate_calls_last)
qed (simp_all add: EnterIsolate_def ExitIsolate_def)

theorem isolate_attach_protocol_witness:
  "isolate_calls [Call_EnterIsolate, Call_ExitIsolate, Call_EnterIsolate] Detached =
     Inr AttachedAsMutator
   \<and> last [Call_EnterIsolate, Call_ExitIsolate, Call_EnterIsolate] = Call_EnterIsolate
   \<and> isolate_calls [Call_EnterIsolate, Call_ExitIsolate] Detached = Inr Detached
   \<and> isolate_calls [Call_EnterIsolate, Call_EnterIsolate] Detached = Inl AssertionFailed
   \<and> isolate_calls [Call_ExitIsolate] Detached = Inl AssertionFailed"
proof -
  have run: "isolate_calls [Call_EnterIsolate, Call_ExitIsolate, Call_EnterIsolate] Detached =
     Inr AttachedAsMutator"
    by (simp add: EnterIsolate_def ExitIsolate_def)
  from isolate_attach_protocol [THEN conjunct2, THEN conjunct2, THEN conjunct2, THEN conjunct2,
      THEN conjunct2, THEN conjunct2, rule_format, OF run]
  have "last [Call_EnterIsolate, Call_ExitIsolate, Call_EnterIsolate] = Call_EnterIsolate"
    by blast
  with run show ?thesis
    by (simp add: EnterIsolate_def ExitIsolate_def)
qed

subsection \<open>Store buffer flush\<close>

lemma StoreBufferBlockProcess_total:
  "mset (record_set (StoreBufferBlockProcess policy s))
     + mset (block (StoreBufferBlockProcess policy s)) =
   mset (record_set s) + mset (block s)"
  by (simp add: StoreBufferBlockProcess_def flush_def)

lemma StoreBufferAddObject_total:
  "mset (record_set (StoreBufferAddObject obj s))
     + mset (block (StoreBufferAddObject obj s)) =
   mset (record_set s) + mset (block s) + {#obj#}"
  unfolding StoreBufferAddObject_def StoreBufferBlockProcess_total by simp

lemma StoreBufferAddObjects_total:
  "mset (record_set (StoreBufferAddObjects objs s))
     + mset (block (StoreBufferAddObjects objs s)) =
   mset (record_set s) + mset (block s) + mset objs"
proof (induction objs arbitrary: s)
  case Nil
  show ?case by simp
next
  case (Cons obj objs)
  show ?case
    by (simp add: Cons.IH StoreBufferAddObject_total)
qed

lemma StoreBufferBlockProcess_flushes:
  "flushes policy s \<Longrightarrow>
     record_set (StoreBufferBlockProcess policy s) = record_set s @ block s
     \<and> block (StoreBufferBlockProcess policy s) = []"
  by (simp add: StoreBufferBlockProcess_def flush_def)

text \<open>
  C2. For any sequence of \<^verbatim>\<open>StoreBufferAddObject\<close> calls followed by a
  \<^verbatim>\<open>StoreBufferBlockProcess\<close> call that flushes: after the flush the record set of the isolate
  holds what it and the block held before the sequence and, once for each call, the reference
  added by the call, and the block of the thread is empty. From empty containers and with
  pairwise different references, every added reference is in the record set exactly once.
\<close>

theorem store_buffer_flush:
  assumes fl: "flushes policy (StoreBufferAddObjects objs s)"
  shows "mset (record_set (StoreBufferBlockProcess policy (StoreBufferAddObjects objs s))) =
           mset (record_set s) + mset (block s) + mset objs
         \<and> block (StoreBufferBlockProcess policy (StoreBufferAddObjects objs s)) = []
         \<and> (record_set s = [] \<and> block s = [] \<and> distinct objs \<longrightarrow>
              (\<forall>obj \<in> set objs.
                 count_list
                   (record_set (StoreBufferBlockProcess policy (StoreBufferAddObjects objs s)))
                   obj = 1))"
proof -
  let ?s1 = "StoreBufferAddObjects objs s"
  let ?s2 = "StoreBufferBlockProcess policy ?s1"
  from StoreBufferBlockProcess_flushes [OF fl]
  have rs: "record_set ?s2 = record_set ?s1 @ block ?s1" and bl: "block ?s2 = []"
    by simp_all
  from rs have "mset (record_set ?s2) = mset (record_set ?s1) + mset (block ?s1)"
    by simp
  with StoreBufferAddObjects_total [of objs s]
  have ms: "mset (record_set ?s2) = mset (record_set s) + mset (block s) + mset objs"
    by simp
  have once: "\<forall>obj \<in> set objs. count_list (record_set ?s2) obj = 1"
    if e: "record_set s = [] \<and> block s = [] \<and> distinct objs"
  proof
    fix obj
    assume obj: "obj \<in> set objs"
    from ms e have "mset (record_set ?s2) = mset objs" by simp
    then have "count (mset (record_set ?s2)) obj = count (mset objs) obj" by simp
    then have "count_list (record_set ?s2) obj = count_list objs obj"
      by (simp only: count_mset)
    also from e obj have "\<dots> = 1"
      by (simp add: distinct_count_atmost_1 flip: count_mset)
    finally show "count_list (record_set ?s2) obj = 1" .
  qed
  from ms bl once show ?thesis by blast
qed

theorem store_buffer_flush_witness:
  "flushes kUnconditional (StoreBufferAddObjects [10, 20, 30, 40, 50] store_buffer0)
   \<and> block (StoreBufferAddObjects [10, 20, 30, 40, 50] store_buffer0) = [50]
   \<and> block (StoreBufferBlockProcess kUnconditional
        (StoreBufferAddObjects [10, 20, 30, 40, 50] store_buffer0)) = []
   \<and> mset (record_set (StoreBufferBlockProcess kUnconditional
        (StoreBufferAddObjects [10, 20, 30, 40, 50] store_buffer0))) =
        mset [10, 20, 30, 40, 50]
   \<and> count_list (record_set (StoreBufferBlockProcess kUnconditional
        (StoreBufferAddObjects [10, 20, 30, 40, 50] store_buffer0))) 30 = 1"
proof -
  have fl: "flushes kUnconditional (StoreBufferAddObjects [10, 20, 30, 40, 50] store_buffer0)"
    by (simp add: flushes_def)
  have b: "block (StoreBufferAddObjects [10, 20, 30, 40, 50] store_buffer0) = [50]"
    by (simp add: StoreBufferAddObject_def StoreBufferBlockProcess_def flushes_def flush_def
        store_buffer0_def)
  have e: "record_set store_buffer0 = [] \<and> block store_buffer0 = []
           \<and> distinct [10, 20, 30, 40, 50 :: 64 word]"
    by (simp add: store_buffer0_def)
  note th = store_buffer_flush [OF fl]
  from th [THEN conjunct1] have m: "mset (record_set (StoreBufferBlockProcess kUnconditional
        (StoreBufferAddObjects [10, 20, 30, 40, 50] store_buffer0))) =
        mset [10, 20, 30, 40, 50]"
    by (simp add: store_buffer0_def)
  from th [THEN conjunct2, THEN conjunct1]
  have bl: "block (StoreBufferBlockProcess kUnconditional
        (StoreBufferAddObjects [10, 20, 30, 40, 50] store_buffer0)) = []" .
  from th [THEN conjunct2, THEN conjunct2, rule_format, OF e, of 30]
  have c: "count_list (record_set (StoreBufferBlockProcess kUnconditional
        (StoreBufferAddObjects [10, 20, 30, 40, 50] store_buffer0))) 30 = 1"
    by simp
  from fl b bl m c show ?thesis by (intro conjI)
qed

end
